theory Spec2Isabelle
  imports Complex_Main
begin

section \<open>Errors\<close>

text \<open>
  The exceptions that the modelled functions can raise. \<open>AssertionError\<close> is what a
  failed \<^verbatim>\<open>assert\<close> raises; \<open>ValueError\<close> and \<open>TypeError\<close> come from the array library
  (an empty reduction, a diagonal that does not fit) and from argument binding.
\<close>

datatype error = AssertionError | ValueError | TypeError

section \<open>The memoization layer (util.py)\<close>

subsection \<open>memoize\<close>

text \<open>
  \<^verbatim>\<open>
  def memoize(obj):
      cache = obj.cache = {}
      @functools.wraps(obj)
      def memoizer(*args, **kwargs):
          if args not in cache:
              cache[args] = obj(*args, **kwargs)
          return cache[args]
      return memoizer
  \<close>
  The state of a decorated function is its dictionary \<open>cache\<close>, keyed by the tuple of
  positional arguments. The field \<open>calls\<close> is a ghost counter of the invocations of the
  wrapped function \<open>obj\<close>; the source has no such field, it is what a call counter
  inside \<open>obj\<close> would observe. An exception raised by \<open>obj\<close> leaves the dictionary
  as it was, since the assignment \<^verbatim>\<open>cache[args] = ...\<close> never happens.
\<close>

record ('a, 'r) memo =
  cache :: "'a \<rightharpoonup> 'r"
  calls :: nat

definition memoize :: "('a, 'r) memo" where
  "memoize = \<lparr>cache = Map.empty, calls = 0\<rparr>"

definition memoizer ::
  "('a \<Rightarrow> 'k \<Rightarrow> error + 'r) \<Rightarrow> 'a \<Rightarrow> 'k \<Rightarrow> ('a, 'r) memo \<Rightarrow> (error + 'r) \<times> ('a, 'r) memo" where
  "memoizer obj args kwargs st =
     (case cache st args of
        Some r \<Rightarrow> (Inr r, st)
      | None \<Rightarrow>
          (case obj args kwargs of
             Inl e \<Rightarrow> (Inl e, st\<lparr>calls := calls st + 1\<rparr>)
           | Inr r \<Rightarrow> (Inr r, st\<lparr>cache := (cache st)(args \<mapsto> r), calls := calls st + 1\<rparr>)))"

text \<open>A run of calls of the decorated function, each with its arguments, in order.\<close>

fun memoizer_calls ::
  "('a \<Rightarrow> 'k \<Rightarrow> error + 'r) \<Rightarrow> ('a \<times> 'k) list \<Rightarrow> ('a, 'r) memo \<Rightarrow> (error + 'r) list \<times> ('a, 'r) memo" where
  "memoizer_calls obj [] st = ([], st)"
| "memoizer_calls obj ((args, kwargs) # cs) st =
     (let (r, st1) = memoizer obj args kwargs st;
          (rs, st2) = memoizer_calls obj cs st1
      in (r # rs, st2))"

subsection \<open>memoize\_instance\<close>

text \<open>
  \<^verbatim>\<open>
  def __call__(self, *args, **kw):
      obj = args[0]
      try:
          cache = obj.__cache
      except AttributeError:
          cache = obj.__cache = {}
      key = (self.func, args[1:], frozenset(kw.items()))
      try:
          res = cache[key]
      except KeyError:
          res = cache[key] = self.func(*args, **kw)
      return res
  \<close>
  Every object carries its own dictionary in the attribute \<open>__cache\<close>, absent until the
  first memoized call on that object. The heap maps an object to that attribute. A key
  is the method, the positional arguments after \<open>self\<close> and the set of the keyword
  items. The keyword dictionary is the list of its items. \<open>icalls\<close> is the ghost counter
  of the invocations of the wrapped methods.
\<close>

type_synonym ('f, 'a, 'kn, 'kv) ikey = "'f \<times> 'a \<times> ('kn \<times> 'kv) set"

record ('o, 'f, 'a, 'kn, 'kv, 'r) heap =
  caches :: "'o \<rightharpoonup> (('f, 'a, 'kn, 'kv) ikey \<rightharpoonup> 'r)"
  icalls :: nat

definition memoize_instance_call ::
  "('f \<Rightarrow> 'o \<Rightarrow> 'a \<Rightarrow> ('kn \<times> 'kv) list \<Rightarrow> error + 'r) \<Rightarrow> 'f \<Rightarrow> 'o \<Rightarrow> 'a \<Rightarrow> ('kn \<times> 'kv) list
     \<Rightarrow> ('o, 'f, 'a, 'kn, 'kv, 'r) heap \<Rightarrow> (error + 'r) \<times> ('o, 'f, 'a, 'kn, 'kv, 'r) heap" where
  "memoize_instance_call impl func obj args kw h =
     (let c = (case caches h obj of None \<Rightarrow> Map.empty | Some c0 \<Rightarrow> c0);
          h1 = h\<lparr>caches := (caches h)(obj \<mapsto> c)\<rparr>;
          key = (func, args, set kw)
      in case c key of
           Some res \<Rightarrow> (Inr res, h1)
         | None \<Rightarrow>
             (case impl func obj args kw of
                Inl e \<Rightarrow> (Inl e, h1\<lparr>icalls := icalls h1 + 1\<rparr>)
              | Inr res \<Rightarrow>
                  (Inr res, h1\<lparr>caches := (caches h1)(obj \<mapsto> c(key \<mapsto> res)),
                                icalls := icalls h1 + 1\<rparr>)))"

fun memoize_instance_calls ::
  "('f \<Rightarrow> 'o \<Rightarrow> 'a \<Rightarrow> ('kn \<times> 'kv) list \<Rightarrow> error + 'r) \<Rightarrow> ('f \<times> 'o \<times> 'a \<times> ('kn \<times> 'kv) list) list
     \<Rightarrow> ('o, 'f, 'a, 'kn, 'kv, 'r) heap \<Rightarrow> (error + 'r) list \<times> ('o, 'f, 'a, 'kn, 'kv, 'r) heap" where
  "memoize_instance_calls impl [] h = ([], h)"
| "memoize_instance_calls impl ((func, obj, args, kw) # cs) h =
     (let (r, h1) = memoize_instance_call impl func obj args kw h;
          (rs, h2) = memoize_instance_calls impl cs h1
      in (r # rs, h2))"

section \<open>The rate-matrix builder (moran\_model.py)\<close>

text \<open>
  Numbers. Python integers are \<open>int\<close>. The floating-point values of numpy are read as
  real numbers: rounding, overflow to infinity and NaN are not modelled (only \<open>expm1d\<close>
  below, whose code tests for infinity, has the infinities). In \<open>rate_matrix\<close> the products
  \<open>i * (n - i)\<close> are integers that numpy holds exactly as long as they stay below \<open>2^53\<close>,
  and halving is exact, so there the real number is the value the code computes.
\<close>

subsection \<open>The array library\<close>

text \<open>\<^verbatim>\<open>np.arange(k)\<close> is the array \<open>0, 1, ..., k - 1\<close>, empty when \<open>k \<le> 0\<close>.\<close>

definition arange :: "int \<Rightarrow> int list" where
  "arange k = [0..k - 1]"

text \<open>
  A sparse matrix is read through its storage format tag, its shape and its dense form
  (\<^verbatim>\<open>todense()\<close>), the list of its rows.
\<close>

datatype sparse_format = CSR | CSC | COO | DIA | LIL | DOK | BSR

record spmatrix =
  format :: sparse_format
  shape :: "nat \<times> nat"
  todense :: "real list list"

text \<open>
  \<^verbatim>\<open>scipy.sparse.diags(diagonals, offsets, shape, format)\<close> is library code; it is modelled
  from its documentation: the \<open>k\<close>-th sequence is placed on the diagonal \<open>offsets[k]\<close>
  (\<open>0\<close> the main diagonal, positive above it, negative below it), its \<open>t\<close>-th element at
  row \<open>t\<close> for an upper and at column \<open>t\<close> for a lower diagonal. A diagonal of the
  \<open>m\<close> by \<open>n\<close> matrix at offset \<open>off\<close> has \<open>diag_length m n off\<close> elements; the
  library raises \<open>ValueError\<close> when that number is negative (the offset is out of
  bounds) and when a sequence is shorter than the diagonal without being a single
  element, which is broadcast.
\<close>

definition diag_length :: "int \<Rightarrow> int \<Rightarrow> int \<Rightarrow> int" where
  "diag_length m n off = min (min (m + off) (n - off)) (min m n)"

definition diag_ok :: "int \<Rightarrow> int \<Rightarrow> real list \<times> int \<Rightarrow> bool" where
  "diag_ok m n p =
     (case p of (d, off) \<Rightarrow>
        0 \<le> diag_length m n off \<and>
        (diag_length m n off \<le> int (length d) \<or> length d = 1))"

definition diag_value :: "int \<Rightarrow> int \<Rightarrow> real list \<times> int \<Rightarrow> nat \<Rightarrow> real" where
  "diag_value m n p t =
     (case p of (d, off) \<Rightarrow> if diag_length m n off \<le> int (length d) then d ! t else d ! 0)"

definition diags_entry :: "int \<Rightarrow> int \<Rightarrow> (real list \<times> int) list \<Rightarrow> nat \<Rightarrow> nat \<Rightarrow> real" where
  "diags_entry m n ds r c =
     sum_list (map (\<lambda>p. if int c - int r = snd p then diag_value m n p (min r c) else 0) ds)"

definition sp_diags ::
  "real list list \<Rightarrow> int list \<Rightarrow> int \<times> int \<Rightarrow> sparse_format \<Rightarrow> error + spmatrix" where
  "sp_diags diagonals offsets shp fmt =
     (case shp of (m, n) \<Rightarrow>
        if diagonals = [] \<or> length diagonals \<noteq> length offsets then Inl ValueError
        else if \<not> list_all (diag_ok m n) (zip diagonals offsets) then Inl ValueError
        else Inr \<lparr>format = fmt, shape = (nat m, nat n),
                  todense = map (\<lambda>r. map (\<lambda>c. diags_entry m n (zip diagonals offsets) r c) [0..<nat n])
                                [0..<nat m]\<rparr>)"

subsection \<open>rate\_matrix\<close>

text \<open>
  \<^verbatim>\<open>
  @memoize
  def rate_matrix(n, sparse_format="csr"):
      i = np.arange(n + 1)
      diag = i * (n - i) / 2.
      diags = [diag[:-1], -2 * diag, diag[1:]]
      M = scipy.sparse.diags(diags, [1, 0, -1], (n + 1, n + 1), format=sparse_format)
      return M
  \<close>
  \<open>rate_matrix\<close> is the undecorated function. \<open>rate_matrix_apply\<close> is the call
  \<^verbatim>\<open>obj(*args, **kwargs)\<close> that the memoizer makes: the positional tuple is \<open>(n,)\<close> or
  \<open>(n, sparse_format)\<close>, the keyword dictionary is empty or gives \<open>sparse_format\<close>;
  giving the format both ways is Python's \<open>TypeError\<close>.
\<close>

definition rate_matrix :: "int \<Rightarrow> sparse_format \<Rightarrow> error + spmatrix" where
  "rate_matrix n sparse_format =
     (let i = arange (n + 1);
          diag = map (\<lambda>i. of_int (i * (n - i)) / 2) i;
          diags = [butlast diag, map (\<lambda>v. - 2 * v) diag, tl diag]
      in sp_diags diags [1, 0, - 1] (n + 1, n + 1) sparse_format)"

definition rate_matrix_apply ::
  "int \<times> sparse_format option \<Rightarrow> sparse_format option \<Rightarrow> error + spmatrix" where
  "rate_matrix_apply args kwargs =
     (case args of (n, pos) \<Rightarrow>
        (case (pos, kwargs) of
           (Some _, Some _) \<Rightarrow> Inl TypeError
         | (Some f, None) \<Rightarrow> rate_matrix n f
         | (None, Some f) \<Rightarrow> rate_matrix n f
         | (None, None) \<Rightarrow> rate_matrix n CSR))"

text \<open>
  The local \<open>diag\<close> of \<open>rate_matrix\<close> on its own, and the value that a tridiagonal
  generator has at row \<open>r\<close> and column \<open>c\<close>; both are used to state and prove the
  properties of \<open>rate_matrix\<close> below.
\<close>

definition rate_diag :: "int \<Rightarrow> real list" where
  "rate_diag n = map (\<lambda>i. of_int (i * (n - i)) / 2) (arange (n + 1))"

definition rate_entry_val :: "int \<Rightarrow> nat \<Rightarrow> nat \<Rightarrow> real" where
  "rate_entry_val n r c =
     (if c = r + 1 \<or> r = c + 1 then real r * (real_of_int n - real r) / 2
      else if c = r then - (real r * (real_of_int n - real r))
      else 0)"

section \<open>The special-function module (util.py)\<close>

subsection \<open>Arrays\<close>

text \<open>
  A two-dimensional array is the list of its rows, all of one length; the array without
  rows is taken to have shape \<open>(0, 0)\<close>. A reduction \<^verbatim>\<open>np.amax(x, axis=axis)\<close> runs over
  lanes: the whole array when \<open>axis\<close> is \<open>None\<close>, the columns for axis \<open>0\<close> (or \<open>-2\<close>),
  the rows for axis \<open>1\<close> (or \<open>-1\<close>). numpy raises \<open>ValueError\<close> for any other axis and
  for a reduction over an axis of length zero.
\<close>

type_synonym array2 = "real list list"

definition columns :: "array2 \<Rightarrow> array2" where
  "columns x = map (\<lambda>c. map (\<lambda>row. row ! c) x) [0..<length (hd x)]"

definition lanes :: "array2 \<Rightarrow> int option \<Rightarrow> error + array2" where
  "lanes x axis =
     (case axis of
        None \<Rightarrow> Inr [concat x]
      | Some a \<Rightarrow>
          if a = 1 \<or> a = - 1 then Inr x
          else if a = 0 \<or> a = - 2 then (if x = [] then Inl ValueError else Inr (columns x))
          else Inl ValueError)"

definition reduce_axis :: "(real \<Rightarrow> real \<Rightarrow> real) \<Rightarrow> array2 \<Rightarrow> int option \<Rightarrow> error + real list" where
  "reduce_axis f x axis =
     (case lanes x axis of
        Inl e \<Rightarrow> Inl e
      | Inr ls \<Rightarrow>
          if x = [] \<or> (\<exists>l \<in> set ls. l = []) then Inl ValueError
          else Inr (map (\<lambda>l. fold f (tl l) (hd l)) ls))"

text \<open>The lane that the element at row \<open>r\<close> and column \<open>c\<close> belongs to.\<close>

definition lane_of :: "int option \<Rightarrow> nat \<Rightarrow> nat \<Rightarrow> nat" where
  "lane_of axis r c = (case axis of None \<Rightarrow> 0 | Some a \<Rightarrow> if a = 1 \<or> a = - 1 then r else c)"

text \<open>\<^verbatim>\<open>x[x < bound] = 0\<close>, the bound being that of the element's lane.\<close>

definition zero_below :: "array2 \<Rightarrow> int option \<Rightarrow> real list \<Rightarrow> array2" where
  "zero_below x axis bounds =
     map (\<lambda>(r, row). map (\<lambda>(c, v). if v < bounds ! lane_of axis r c then 0 else v) (enumerate 0 row))
         (enumerate 0 x)"

subsection \<open>truncate0\<close>

text \<open>
  \<^verbatim>\<open>
  def truncate0(x, axis=None, strict=False, tol=1e-13):
      # the maximum along axis
      maxes = np.maximum(np.amax(x, axis=axis), 1e-300)
      # the negative part of minimum along axis
      mins = np.maximum(-np.amin(x,axis=axis), 0.0)
      # assert the negative numbers are small (relative to maxes)
      assert np.all(mins <= tol * maxes)
      if axis is not None:
          idx = [slice(None)] * x.ndim
          idx[axis] = np.newaxis
          mins = mins[idx]
          maxes = maxes[idx]
      if strict:
          # set everything below the tolerance to 0
          x[x < tol * maxes] = 0
          return x
      else:
          # set everything of same magnitude as most negative number, to 0
          x[x < 2*mins] = 0
          return x
  \<close>
  The function writes into its argument. Its model returns a pair: what the call returns
  or raises, and the contents of the caller's array \<open>x\<close> after the call. On success the two
  are the same array.
\<close>

text \<open>The floor \<^verbatim>\<open>1e-300\<close> under the maxima.\<close>

definition tiny :: real where
  "tiny = 1 / 10 ^ 300"

definition truncate0 :: "array2 \<Rightarrow> int option \<Rightarrow> bool \<Rightarrow> real \<Rightarrow> (error + array2) \<times> array2" where
  "truncate0 x axis strict tol =
     (case reduce_axis max x axis of
        Inl e \<Rightarrow> (Inl e, x)
      | Inr amaxs \<Rightarrow>
          (case reduce_axis min x axis of
             Inl e \<Rightarrow> (Inl e, x)
           | Inr amins \<Rightarrow>
               (let maxes = map (\<lambda>v. max v tiny) amaxs;
                    mins = map (\<lambda>v. max (- v) 0) amins
                in if \<not> list_all (\<lambda>(mn, mx). mn \<le> tol * mx) (zip mins maxes)
                   then (Inl AssertionError, x)
                   else if strict
                   then (let x' = zero_below x axis (map (\<lambda>mx. tol * mx) maxes) in (Inr x', x'))
                   else (let x' = zero_below x axis (map (\<lambda>mn. 2 * mn) mins) in (Inr x', x')))))"

subsection \<open>check\_probs\_matrix\<close>

text \<open>
  \<^verbatim>\<open>
  def check_probs_matrix(x):
      x = truncate0(x)
      rowsums = np.sum(x, axis=1)
      assert np.allclose(rowsums,1.0)
      return np.einsum('ij,i->ij',x,1.0/rowsums)
  \<close>
  \<^verbatim>\<open>np.allclose(a, b)\<close> holds when every \<open>|a - b|\<close> is at most \<open>atol + rtol * |b|\<close> with
  the defaults \<open>rtol = 1e-05\<close> and \<open>atol = 1e-08\<close>. The result of \<open>einsum\<close> is a new
  array; the caller's array is left as \<open>truncate0\<close> left it.
\<close>

definition allclose :: "real list \<Rightarrow> real \<Rightarrow> bool" where
  "allclose a b = list_all (\<lambda>v. abs (v - b) \<le> 1 / 10 ^ 8 + 1 / 10 ^ 5 * abs b) a"

definition check_probs_matrix :: "array2 \<Rightarrow> (error + array2) \<times> array2" where
  "check_probs_matrix x =
     (case truncate0 x None False (1 / 10 ^ 13) of
        (Inl e, x') \<Rightarrow> (Inl e, x')
      | (Inr y, x') \<Rightarrow>
          (let rowsums = map sum_list y
           in if \<not> allclose rowsums 1 then (Inl AssertionError, x')
              else (Inr (map (\<lambda>(row, s). map (\<lambda>v. v * (1 / s)) row) (zip y rowsums)), x')))"

text \<open>
  The order that the specification describes, for comparison with the code: the row sums
  are checked on the input, and only then is the array truncated and normalised.
\<close>

definition check_probs_matrix_spec :: "array2 \<Rightarrow> (error + array2) \<times> array2" where
  "check_probs_matrix_spec x =
     (if \<not> allclose (map sum_list x) 1 then (Inl AssertionError, x)
      else (case truncate0 x None False (1 / 10 ^ 13) of
              (Inl e, x') \<Rightarrow> (Inl e, x')
            | (Inr y, x') \<Rightarrow>
                (Inr (map (\<lambda>(row, s). map (\<lambda>v. v * (1 / s)) row) (zip y (map sum_list y))), x')))"

subsection \<open>expm1d\<close>

text \<open>
  \<^verbatim>\<open>
  def expm1d(x):
      if x == 0.0:
          return 1.0
      elif x == float('inf'):
          return float('inf')
      return np.expm1(x)/x
  \<close>
  The code tests its argument against infinity, so here a float is a real number, one of
  the two infinities, or NaN. \<open>np_expm1\<close> and \<open>fdiv\<close> are numpy's \<open>expm1\<close> and division
  on such values, with the IEEE results at the infinities and NaN.
\<close>

datatype pyfloat = Finite real | PosInf | NegInf | NaN

fun np_expm1 :: "pyfloat \<Rightarrow> pyfloat" where
  "np_expm1 (Finite x) = Finite (exp x - 1)"
| "np_expm1 PosInf = PosInf"
| "np_expm1 NegInf = Finite (- 1)"
| "np_expm1 NaN = NaN"

fun fdiv :: "pyfloat \<Rightarrow> pyfloat \<Rightarrow> pyfloat" where
  "fdiv (Finite a) (Finite b) =
     (if b = 0 then (if a = 0 then NaN else if 0 < a then PosInf else NegInf) else Finite (a / b))"
| "fdiv (Finite a) PosInf = Finite 0"
| "fdiv (Finite a) NegInf = Finite 0"
| "fdiv PosInf (Finite b) = (if 0 \<le> b then PosInf else NegInf)"
| "fdiv NegInf (Finite b) = (if 0 \<le> b then NegInf else PosInf)"
| "fdiv _ _ = NaN"

definition expm1d :: "pyfloat \<Rightarrow> pyfloat" where
  "expm1d x =
     (if x = Finite 0 then Finite 1
      else if x = PosInf then PosInf
      else fdiv (np_expm1 x) x)"

subsection \<open>transformed\_expi\<close>

text \<open>
  \<^verbatim>\<open>
  def transformed_expi(x):
      abs_x = np.abs(x)
      ser = abs_x < 1./45.
      nser = np.logical_not(ser)
      ret = np.zeros(x.shape)
      ret[ser], ret[nser] = transformed_expi_series(x[ser]), transformed_expi_naive(x[nser])
      return ret

  def transformed_expi_series(x):
      c_n, ret = 1., 1.
      for n in range(1,11):
          c_n = -c_n * x * n
          ret = ret + c_n
      return ret

  def transformed_expi_naive(x):
      return -scipy.special.expi(-1.0/x) * np.exp(1.0/x) / x
  \<close>
  The argument is an array, here the list of its elements. \<open>x[mask]\<close> selects the elements
  under a boolean mask and \<open>ret[mask] = v\<close> writes the elements of \<open>v\<close>, in order, to the
  places under the mask. The scalars \<open>c_n\<close> and \<open>ret\<close> are broadcast to the length of
  \<open>x\<close>. \<^verbatim>\<open>scipy.special.expi\<close> is the library's exponential integral; it is a parameter
  \<open>expi\<close> of the model.
\<close>

definition select_mask :: "'a list \<Rightarrow> bool list \<Rightarrow> 'a list" where
  "select_mask xs msk = map fst (filter snd (zip xs msk))"

fun put_mask :: "'a list \<Rightarrow> bool list \<Rightarrow> 'a list \<Rightarrow> 'a list" where
  "put_mask (r # rs) (m # ms) vs =
     (if m then (case vs of [] \<Rightarrow> r # put_mask rs ms [] | v # vs' \<Rightarrow> v # put_mask rs ms vs')
      else r # put_mask rs ms vs)"
| "put_mask rs _ _ = rs"

fun series_loop :: "real list \<Rightarrow> nat list \<Rightarrow> real list \<times> real list \<Rightarrow> real list \<times> real list" where
  "series_loop x [] (c_n, ret) = (c_n, ret)"
| "series_loop x (n # ns) (c_n, ret) =
     (let c_n' = map2 (\<lambda>c v. - c * v * real n) c_n x;
          ret' = map2 (+) ret c_n'
      in series_loop x ns (c_n', ret'))"

definition transformed_expi_series :: "real list \<Rightarrow> real list" where
  "transformed_expi_series x = snd (series_loop x [1..<11] (map (\<lambda>_. 1) x, map (\<lambda>_. 1) x))"

definition transformed_expi_naive :: "(real \<Rightarrow> real) \<Rightarrow> real list \<Rightarrow> real list" where
  "transformed_expi_naive expi x = map (\<lambda>v. - expi (- 1 / v) * exp (1 / v) / v) x"

definition transformed_expi :: "(real \<Rightarrow> real) \<Rightarrow> real list \<Rightarrow> real list" where
  "transformed_expi expi x =
     (let abs_x = map abs x;
          ser = map (\<lambda>a. a < 1 / 45) abs_x;
          nser = map Not ser;
          ret = map (\<lambda>_. 0) x;
          ret1 = put_mask ret ser (transformed_expi_series (select_mask x ser));
          ret2 = put_mask ret1 nser (transformed_expi_naive expi (select_mask x nser))
      in ret2)"

text \<open>
  The arrays and axes that the properties of \<open>truncate0\<close> are stated for: a
  two-dimensional array with at least one row and one column, all rows of one length, and
  an axis that such an array has.
\<close>

definition wf_array :: "array2 \<Rightarrow> bool" where
  "wf_array x \<longleftrightarrow> x \<noteq> [] \<and> (\<forall>row \<in> set x. row \<noteq> [] \<and> length row = length (hd x))"

definition valid_axis :: "int option \<Rightarrow> bool" where
  "valid_axis axis \<longleftrightarrow> axis \<in> {None, Some 0, Some 1, Some (- 1), Some (- 2)}"

text \<open>
  The assertion of \<open>truncate0\<close> on one lane: the negative part of its minimum exceeds
  \<open>tol\<close> times its maximum, the maximum taken no smaller than \<open>tiny\<close>.
\<close>

definition lane_fails :: "real \<Rightarrow> real list \<Rightarrow> bool" where
  "lane_fails tol l \<longleftrightarrow> tol * max (Max (set l)) tiny < max (- Min (set l)) 0"

text \<open>
  The coefficients of the series as the specification words them: \<open>c\<^sub>0 = 1\<close> and
  \<open>c\<^sub>k = - c\<^sub>k\<^sub>-\<^sub>1 * x * k\<close>.
\<close>

fun expi_coeff :: "real \<Rightarrow> nat \<Rightarrow> real" where
  "expi_coeff x 0 = 1"
| "expi_coeff x (Suc k) = - expi_coeff x k * x * real (Suc k)"

section \<open>Properties of the rate-matrix builder\<close>

lemma length_arange: "length (arange k) = nat k"
  by (simp add: arange_def)

lemma nth_arange: "i < nat k \<Longrightarrow> arange k ! i = int i"
  by (simp add: arange_def)

lemma length_rate_diag: "length (rate_diag n) = nat (n + 1)"
  by (simp add: rate_diag_def length_arange)

lemma nth_rate_diag:
  "i < nat (n + 1) \<Longrightarrow> rate_diag n ! i = real i * (real_of_int n - real i) / 2"
  by (simp add: rate_diag_def length_arange nth_arange)

lemma rate_matrix_unfold:
  "rate_matrix n fmt =
     sp_diags [butlast (rate_diag n), map (\<lambda>v. - 2 * v) (rate_diag n), tl (rate_diag n)]
       [1, 0, - 1] (n + 1, n + 1) fmt"
  by (simp add: rate_matrix_def rate_diag_def Let_def)

text \<open>
  For a negative \<open>n\<close> the shape \<open>(n + 1, n + 1)\<close> leaves no room for the diagonal at offset
  \<open>1\<close>, and the sparse constructor rejects it. The source itself has no check of \<open>n\<close>.
\<close>

lemma rate_matrix_negative: "n < 0 \<Longrightarrow> rate_matrix n fmt = Inl ValueError"
  by (simp add: rate_matrix_unfold sp_diags_def diag_ok_def diag_length_def)

lemma rate_diags_ok:
  assumes "0 \<le> n"
  shows "list_all (diag_ok (n + 1) (n + 1))
           (zip [butlast (rate_diag n), map (\<lambda>v. - 2 * v) (rate_diag n), tl (rate_diag n)] [1, 0, - 1])"
  using assms by (simp add: diag_ok_def diag_length_def length_rate_diag)

lemma rate_entry:
  assumes "0 \<le> n" and "r \<le> nat n" and "c \<le> nat n"
  shows "diags_entry (n + 1) (n + 1)
           (zip [butlast (rate_diag n), map (\<lambda>v. - 2 * v) (rate_diag n), tl (rate_diag n)] [1, 0, - 1]) r c =
         (if c = r + 1 \<or> r = c + 1 then real r * (real_of_int n - real r) / 2
          else if c = r then - (real r * (real_of_int n - real r))
          else 0)"
proof -
  have up: "c = r + 1 \<Longrightarrow> butlast (rate_diag n) ! r = real r * (real_of_int n - real r) / 2"
    using assms by (simp add: nth_butlast length_rate_diag nth_rate_diag)
  have lo: "r = c + 1 \<Longrightarrow> tl (rate_diag n) ! c = real r * (real_of_int n - real r) / 2"
    using assms by (simp add: nth_tl length_rate_diag nth_rate_diag)
  have mid: "c = r \<Longrightarrow> map (\<lambda>v. - 2 * v) (rate_diag n) ! r = - (real r * (real_of_int n - real r))"
    using assms by (simp add: length_rate_diag nth_rate_diag)
  show ?thesis
    using assms up lo mid
    by (auto simp: diags_entry_def diag_value_def diag_length_def length_rate_diag)
qed

lemma rate_matrix_value:
  assumes "0 \<le> n"
  shows "rate_matrix n fmt =
           Inr \<lparr>format = fmt, shape = (nat n + 1, nat n + 1),
                 todense = map (\<lambda>r. map (\<lambda>c. rate_entry_val n r c) [0..<nat n + 1]) [0..<nat n + 1]\<rparr>"
proof -
  have n1: "nat (n + 1) = nat n + 1" using assms by simp
  have "map (\<lambda>r. map (\<lambda>c. diags_entry (n + 1) (n + 1)
           (zip [butlast (rate_diag n), map (\<lambda>v. - 2 * v) (rate_diag n), tl (rate_diag n)] [1, 0, - 1]) r c)
             [0..<nat n + 1]) [0..<nat n + 1]
        = map (\<lambda>r. map (\<lambda>c. rate_entry_val n r c) [0..<nat n + 1]) [0..<nat n + 1]"
  proof (rule map_cong [OF refl], rule map_cong [OF refl])
    fix r c
    assume "r \<in> set [0..<nat n + 1]" and "c \<in> set [0..<nat n + 1]"
    then have "r \<le> nat n" and "c \<le> nat n" by auto
    then show "diags_entry (n + 1) (n + 1)
           (zip [butlast (rate_diag n), map (\<lambda>v. - 2 * v) (rate_diag n), tl (rate_diag n)] [1, 0, - 1]) r c
           = rate_entry_val n r c"
      unfolding rate_entry_val_def by (rule rate_entry [OF assms])
  qed
  then show ?thesis
    using rate_diags_ok [OF assms] by (simp add: rate_matrix_unfold sp_diags_def n1)
qed

lemma sum_list_delta:
  "sum_list (map (\<lambda>c. if c = k then a else (0::real)) [0..<m]) = (if k < m then a else 0)"
  by (induction m) auto

lemma rate_row_sum:
  assumes "0 \<le> n" and "r \<le> nat n"
  shows "sum_list (map (\<lambda>c. rate_entry_val n r c) [0..<nat n + 1]) = 0"
proof -
  define a where "a = real r * (real_of_int n - real r) / 2"
  define m where "m = nat n + 1"
  have split: "rate_entry_val n r c =
      (if c = r + 1 then a else 0) + ((if c = r - 1 then (if 0 < r then a else 0) else 0) + (if c = r then - 2 * a else 0))" for c
    by (auto simp: rate_entry_val_def a_def)
  have "sum_list (map (\<lambda>c. rate_entry_val n r c) [0..<m])
      = sum_list (map (\<lambda>c. if c = r + 1 then a else 0) [0..<m])
        + (sum_list (map (\<lambda>c. if c = r - 1 then (if 0 < r then a else 0) else 0) [0..<m])
        + sum_list (map (\<lambda>c. if c = r then - 2 * a else 0) [0..<m]))"
    by (simp only: split sum_list_addf)
  also have "\<dots> = (if r + 1 < m then a else 0) + ((if r - 1 < m then (if 0 < r then a else 0) else 0)
        + (if r < m then - 2 * a else 0))"
    by (simp only: sum_list_delta)
  finally have eq: "sum_list (map (\<lambda>c. rate_entry_val n r c) [0..<m])
      = (if r + 1 < m then a else 0) + ((if r - 1 < m then (if 0 < r then a else 0) else 0)
        + (if r < m then - 2 * a else 0))" .
  have a0: "a = 0" if "r = 0 \<or> r = nat n"
    using that assms by (auto simp: a_def)
  have "(if r + 1 < m then a else 0) + ((if r - 1 < m then (if 0 < r then a else 0) else 0)
        + (if r < m then - 2 * a else 0)) = 0"
  proof (cases "r = 0 \<or> r = nat n")
    case True
    then have "a = 0" by (rule a0)
    then show ?thesis by simp
  next
    case False
    then have "0 < r" "r + 1 < m" "r - 1 < m" "r < m" using assms by (auto simp: m_def)
    then show ?thesis by simp
  qed
  then show ?thesis using eq by (simp only: m_def)
qed

lemma rate_row_boundary:
  assumes "0 \<le> n" and "r = 0 \<or> r = nat n"
  shows "map (\<lambda>c. rate_entry_val n r c) [0..<nat n + 1] = replicate (nat n + 1) 0"
proof -
  have z: "real r * (real_of_int n - real r) = 0" using assms by auto
  have "map (\<lambda>c. rate_entry_val n r c) [0..<nat n + 1] = map (\<lambda>c. 0) [0..<nat n + 1]"
    by (intro map_cong refl) (simp add: rate_entry_val_def z)
  then show ?thesis by (simp add: map_replicate_const)
qed

lemma rate_matrix_two:
  "map (\<lambda>r. map (\<lambda>c. rate_entry_val 2 r c) [0..<3]) [0..<3] = [[0, 0, 0], [1 / 2, - 1, 1 / 2], [0, 0, 0]]"
proof -
  have u: "[0..<3] = [0, 1, 2::nat]" by (simp add: upt_conv_Cons)
  show ?thesis unfolding u by (simp add: rate_entry_val_def)
qed

text \<open>
  Claim C1. For every non-negative integer \<open>n\<close> and every format, \<open>rate_matrix\<close> returns
  a matrix of shape \<open>(n + 1, n + 1)\<close> in the requested format whose entry \<open>(r, r + 1)\<close> and
  whose entry \<open>(r, r - 1)\<close> are \<open>r * (n - r) / 2\<close>, whose diagonal entry \<open>(r, r)\<close> is
  \<open>- (r * (n - r))\<close> and whose other entries are zero; every row sums to zero, the rows
  \<open>0\<close> and \<open>n\<close> are all-zero, and for \<open>n = 2\<close> the rows are \<open>[0, 0, 0]\<close>,
  \<open>[1/2, -1, 1/2]\<close> and \<open>[0, 0, 0]\<close>.
\<close>

theorem rate_matrix_tridiagonal:
  assumes "0 \<le> n"
  shows "\<exists>M. rate_matrix n fmt = Inr M \<and> format M = fmt \<and> shape M = (nat n + 1, nat n + 1)
           \<and> length (todense M) = nat n + 1
           \<and> (\<forall>r\<le>nat n. length (todense M ! r) = nat n + 1
                 \<and> (\<forall>c\<le>nat n. todense M ! r ! c =
                       (if c = r + 1 \<or> r = c + 1 then real r * (real_of_int n - real r) / 2
                        else if c = r then - (real r * (real_of_int n - real r))
                        else 0))
                 \<and> sum_list (todense M ! r) = 0)
           \<and> todense M ! 0 = replicate (nat n + 1) 0
           \<and> todense M ! nat n = replicate (nat n + 1) 0
           \<and> (n = 2 \<longrightarrow> todense M = [[0, 0, 0], [1 / 2, - 1, 1 / 2], [0, 0, 0]])"
proof -
  let ?N = "nat n + 1"
  let ?D = "map (\<lambda>r. map (\<lambda>c. rate_entry_val n r c) [0..<?N]) [0..<?N]"
  let ?M = "\<lparr>format = fmt, shape = (?N, ?N), todense = ?D\<rparr>"
  have row: "?D ! r = map (\<lambda>c. rate_entry_val n r c) [0..<?N]" if "r \<le> nat n" for r
    using that by (simp del: upt_Suc)
  have ent: "?D ! r ! c = rate_entry_val n r c" if "r \<le> nat n" "c \<le> nat n" for r c
    using that by (simp del: upt_Suc)
  have rows: "length (?D ! r) = ?N
                 \<and> (\<forall>c\<le>nat n. ?D ! r ! c =
                       (if c = r + 1 \<or> r = c + 1 then real r * (real_of_int n - real r) / 2
                        else if c = r then - (real r * (real_of_int n - real r))
                        else 0))
                 \<and> sum_list (?D ! r) = 0" if r: "r \<le> nat n" for r
  proof (intro conjI allI impI)
    show "length (?D ! r) = ?N" unfolding row [OF r] by simp
    show "sum_list (?D ! r) = 0" unfolding row [OF r] by (rule rate_row_sum [OF assms r])
    fix c assume "c \<le> nat n"
    then show "?D ! r ! c = (if c = r + 1 \<or> r = c + 1 then real r * (real_of_int n - real r) / 2
                        else if c = r then - (real r * (real_of_int n - real r))
                        else 0)"
      using ent [OF r \<open>c \<le> nat n\<close>] by (simp only: rate_entry_val_def)
  qed
  have r0: "?D ! 0 = replicate ?N 0"
  proof -
    have "?D ! 0 = map (\<lambda>c. rate_entry_val n 0 c) [0..<?N]" by (rule row) simp
    also have "\<dots> = replicate ?N 0" by (rule rate_row_boundary [OF assms]) simp
    finally show ?thesis .
  qed
  have rn: "?D ! nat n = replicate ?N 0"
  proof -
    have "?D ! nat n = map (\<lambda>c. rate_entry_val n (nat n) c) [0..<?N]" by (rule row) simp
    also have "\<dots> = replicate ?N 0" by (rule rate_row_boundary [OF assms]) simp
    finally show ?thesis .
  qed
  have two: "?D = [[0, 0, 0], [1 / 2, - 1, 1 / 2], [0, 0, 0]]" if n2: "n = 2"
  proof -
    have N3: "nat n + 1 = 3" unfolding n2 by simp
    show ?thesis unfolding N3 unfolding n2 by (rule rate_matrix_two)
  qed
  have val: "rate_matrix n fmt = Inr ?M" by (rule rate_matrix_value [OF assms])
  have sel: "format ?M = fmt" "shape ?M = (?N, ?N)" "todense ?M = ?D" by simp_all
  have len: "length ?D = ?N" by simp
  show ?thesis
  proof (rule exI [of _ ?M], unfold sel, intro conjI)
    show "rate_matrix n fmt = Inr ?M" by (rule val)
    show "fmt = fmt" by (rule refl)
    show "(?N, ?N) = (?N, ?N)" by (rule refl)
    show "length ?D = ?N" by (rule len)
    show "\<forall>r\<le>nat n. length (?D ! r) = ?N
                 \<and> (\<forall>c\<le>nat n. ?D ! r ! c =
                       (if c = r + 1 \<or> r = c + 1 then real r * (real_of_int n - real r) / 2
                        else if c = r then - (real r * (real_of_int n - real r))
                        else 0))
                 \<and> sum_list (?D ! r) = 0"
      using rows by blast
    show "?D ! 0 = replicate ?N 0" by (rule r0)
    show "?D ! nat n = replicate ?N 0" by (rule rn)
    show "n = 2 \<longrightarrow> ?D = [[0, 0, 0], [1 / 2, - 1, 1 / 2], [0, 0, 0]]" using two by blast
  qed
qed

theorem rate_matrix_tridiagonal_witness:
  "(0::int) \<le> 2 \<and>
   rate_matrix 2 CSR =
     Inr \<lparr>format = CSR, shape = (3, 3), todense = [[0, 0, 0], [1 / 2, - 1, 1 / 2], [0, 0, 0]]\<rparr>"
proof -
  have h: "(0::int) \<le> 2" by simp
  from rate_matrix_tridiagonal [OF h, of CSR] obtain M where
    M: "rate_matrix 2 CSR = Inr M" "format M = CSR" "shape M = (nat 2 + 1, nat 2 + 1)"
       "todense M = [[0, 0, 0], [1 / 2, - 1, 1 / 2], [0, 0, 0]]"
    by auto
  have "M = \<lparr>format = CSR, shape = (3, 3), todense = [[0, 0, 0], [1 / 2, - 1, 1 / 2], [0, 0, 0]]\<rparr>"
    using M(2-4) by (cases M) simp
  then show ?thesis using M(1) by simp
qed

section \<open>Properties of the memoization layer\<close>

lemma memoizer_miss:
  "cache st a = None \<Longrightarrow> f a kw = Inr v \<Longrightarrow>
   memoizer f a kw st = (Inr v, st\<lparr>cache := (cache st)(a \<mapsto> v), calls := calls st + 1\<rparr>)"
  by (simp add: memoizer_def)

lemma memoizer_hit: "cache st a = Some v \<Longrightarrow> memoizer f a kw st = (Inr v, st)"
  by (simp add: memoizer_def)

lemma memoizer_calls_hits:
  "cache st a = Some v \<Longrightarrow> \<forall>c \<in> set cs. fst c = a \<Longrightarrow>
   memoizer_calls f cs st = (map (\<lambda>_. Inr v) cs, st)"
  by (induction cs) (auto simp: memoizer_hit)

lemma memoizer_no_eviction: "cache st \<subseteq>\<^sub>m cache (snd (memoizer f a kw st))"
  by (auto simp: memoizer_def map_le_def split: option.splits sum.splits)

lemma memoizer_calls_no_eviction: "cache st \<subseteq>\<^sub>m cache (snd (memoizer_calls f cs st))"
proof (induction cs arbitrary: st)
  case Nil
  show ?case by simp
next
  case (Cons c cs)
  obtain a kw where c: "c = (a, kw)" by (cases c)
  obtain r st1 where m: "memoizer f a kw st = (r, st1)" by (cases "memoizer f a kw st")
  have "cache st \<subseteq>\<^sub>m cache st1" using memoizer_no_eviction [of st f a kw] m by simp
  moreover have "cache st1 \<subseteq>\<^sub>m cache (snd (memoizer_calls f cs st1))" by (rule Cons.IH)
  ultimately show ?case using c m by (auto simp: split_beta intro: map_le_trans)
qed

lemma memoizer_calls_once:
  assumes "cache st a = None" and "f a kw = Inr v"
  shows "memoizer_calls f ((a, kw) # map (\<lambda>k. (a, k)) kws) st =
           (Inr v # map (\<lambda>_. Inr v) kws,
            st\<lparr>cache := (cache st)(a \<mapsto> v), calls := calls st + 1\<rparr>)"
proof -
  let ?st1 = "st\<lparr>cache := (cache st)(a \<mapsto> v), calls := calls st + 1\<rparr>"
  have "cache ?st1 a = Some v" by simp
  then have "memoizer_calls f (map (\<lambda>k. (a, k)) kws) ?st1 = (map (\<lambda>_. Inr v) (map (\<lambda>k. (a, k)) kws), ?st1)"
    by (intro memoizer_calls_hits) auto
  then show ?thesis using memoizer_miss [of st a f kw v] assms by simp
qed

lemma instance_miss:
  assumes "(case caches h obj of None \<Rightarrow> None | Some c \<Rightarrow> c (func, args, set kw)) = None"
    and "impl func obj args kw = Inr v"
  shows "memoize_instance_call impl func obj args kw h =
           (Inr v, h\<lparr>caches := (caches h)(obj \<mapsto>
                        (case caches h obj of None \<Rightarrow> Map.empty | Some c \<Rightarrow> c)((func, args, set kw) \<mapsto> v)),
                      icalls := icalls h + 1\<rparr>)"
  using assms by (auto simp: memoize_instance_call_def Let_def split: option.splits)

lemma instance_hit:
  assumes "caches h obj = Some c" and "c (func, args, set kw) = Some v"
  shows "memoize_instance_call impl func obj args kw h = (Inr v, h)"
proof -
  have "(caches h)(obj \<mapsto> c) = caches h" using assms(1) by (rule map_upd_triv)
  then show ?thesis using assms by (simp add: memoize_instance_call_def Let_def)
qed

lemma instance_calls_hits:
  assumes "caches h obj = Some c" and "c (func, args, set kw) = Some v"
  shows "memoize_instance_calls impl (replicate n (func, obj, args, kw)) h = (replicate n (Inr v), h)"
  by (induction n) (simp_all add: instance_hit [OF assms])

lemma instance_no_eviction:
  assumes "caches h ob = Some c"
  shows "\<exists>c'. caches (snd (memoize_instance_call impl func obj args kw h)) ob = Some c' \<and> c \<subseteq>\<^sub>m c'"
  using assms
  by (auto simp: memoize_instance_call_def Let_def map_le_def split: option.splits sum.splits)

lemma instance_calls_no_eviction:
  assumes "caches h ob = Some c"
  shows "\<exists>c'. caches (snd (memoize_instance_calls impl cs h)) ob = Some c' \<and> c \<subseteq>\<^sub>m c'"
  using assms
proof (induction cs arbitrary: h c)
  case Nil
  then show ?case by simp
next
  case (Cons x cs)
  obtain func obj args kw where x: "x = (func, obj, args, kw)" by (cases x)
  obtain r h1 where m: "memoize_instance_call impl func obj args kw h = (r, h1)"
    by (cases "memoize_instance_call impl func obj args kw h")
  from instance_no_eviction [OF Cons.prems, of impl func obj args kw] m
  obtain c1 where c1: "caches h1 ob = Some c1" "c \<subseteq>\<^sub>m c1" by auto
  from Cons.IH [OF c1(1)]
  obtain c2 where c2: "caches (snd (memoize_instance_calls impl cs h1)) ob = Some c2" "c1 \<subseteq>\<^sub>m c2"
    by auto
  have "c \<subseteq>\<^sub>m c2" using c1(2) c2(2) by (rule map_le_trans)
  then show ?case using x m c2(1) by (simp add: split_beta)
qed

lemma instance_calls_once:
  assumes "(case caches h obj of None \<Rightarrow> None | Some c \<Rightarrow> c (func, args, set kw)) = None"
    and "impl func obj args kw = Inr v"
  shows "memoize_instance_calls impl (replicate (Suc n) (func, obj, args, kw)) h =
           (replicate (Suc n) (Inr v),
            h\<lparr>caches := (caches h)(obj \<mapsto>
                  (case caches h obj of None \<Rightarrow> Map.empty | Some c \<Rightarrow> c)((func, args, set kw) \<mapsto> v)),
              icalls := icalls h + 1\<rparr>)"
proof -
  let ?c = "(case caches h obj of None \<Rightarrow> Map.empty | Some c \<Rightarrow> c)((func, args, set kw) \<mapsto> v)"
  let ?h1 = "h\<lparr>caches := (caches h)(obj \<mapsto> ?c), icalls := icalls h + 1\<rparr>"
  have first: "memoize_instance_call impl func obj args kw h = (Inr v, ?h1)"
    using assms by (rule instance_miss)
  have "caches ?h1 obj = Some ?c" and "?c (func, args, set kw) = Some v" by simp_all
  then have rest: "memoize_instance_calls impl (replicate n (func, obj, args, kw)) ?h1 = (replicate n (Inr v), ?h1)"
    by (rule instance_calls_hits)
  show ?thesis using first rest by simp
qed

text \<open>
  Claim C8. For a wrapped function \<open>f\<close> that returns a value \<open>v\<close> at the argument tuple
  \<open>a\<close>, and a cache that does not hold \<open>a\<close> yet: in any number \<open>n + 1\<close> of identical
  calls the first one invokes \<open>f\<close> and stores \<open>v\<close>, the others return the stored value, all
  calls return \<open>v\<close>, and \<open>f\<close> has been invoked exactly once. The same holds for a method
  memoized by \<open>memoize_instance\<close>, in the cache of the object it is called on, the caches
  of the other objects being left alone. No call removes an entry from a cache.
\<close>

theorem memoize_computes_once:
  assumes "cache st a = None" and "f a kw = Inr v"
    and "(case caches h ob of None \<Rightarrow> None | Some c \<Rightarrow> c (func, args, set ikw)) = None"
    and "impl func ob args ikw = Inr w"
  shows "memoizer_calls f (replicate (Suc n) (a, kw)) st =
           (replicate (Suc n) (Inr v), st\<lparr>cache := (cache st)(a \<mapsto> v), calls := calls st + 1\<rparr>)
       \<and> memoize_instance_calls impl (replicate (Suc n) (func, ob, args, ikw)) h =
           (replicate (Suc n) (Inr w),
            h\<lparr>caches := (caches h)(ob \<mapsto>
                  (case caches h ob of None \<Rightarrow> Map.empty | Some c \<Rightarrow> c)((func, args, set ikw) \<mapsto> w)),
              icalls := icalls h + 1\<rparr>)
       \<and> (\<forall>cs st0. cache st0 \<subseteq>\<^sub>m cache (snd (memoizer_calls f cs st0)))
       \<and> (\<forall>cs h0 ob0 c0. caches h0 ob0 = Some c0 \<longrightarrow>
             (\<exists>c'. caches (snd (memoize_instance_calls impl cs h0)) ob0 = Some c' \<and> c0 \<subseteq>\<^sub>m c'))"
proof -
  have "memoizer_calls f ((a, kw) # map (\<lambda>k. (a, k)) (replicate n kw)) st =
          (Inr v # map (\<lambda>_. Inr v) (replicate n kw),
           st\<lparr>cache := (cache st)(a \<mapsto> v), calls := calls st + 1\<rparr>)"
    using assms(1,2) by (rule memoizer_calls_once)
  then have A: "memoizer_calls f (replicate (Suc n) (a, kw)) st =
           (replicate (Suc n) (Inr v), st\<lparr>cache := (cache st)(a \<mapsto> v), calls := calls st + 1\<rparr>)"
    by simp
  have B: "memoize_instance_calls impl (replicate (Suc n) (func, ob, args, ikw)) h =
           (replicate (Suc n) (Inr w),
            h\<lparr>caches := (caches h)(ob \<mapsto>
                  (case caches h ob of None \<Rightarrow> Map.empty | Some c \<Rightarrow> c)((func, args, set ikw) \<mapsto> w)),
              icalls := icalls h + 1\<rparr>)"
    using assms(3,4) by (rule instance_calls_once)
  show ?thesis
    using A B memoizer_calls_no_eviction [where f = f] instance_calls_no_eviction [where impl = impl]
    by blast
qed

theorem memoize_computes_once_witness:
  "memoizer_calls (\<lambda>a (kw::unit). Inr (a + 1)) (replicate 3 (3::nat, ())) memoize =
     (replicate 3 (Inr (4::nat)), \<lparr>cache = [3 \<mapsto> 4], calls = 1\<rparr>)
   \<and> memoize_instance_calls (\<lambda>(func::bool) (ob::nat) (args::nat) (kw::(string \<times> nat) list). Inr (ob + args))
        (replicate 3 (True, 5, 2, []))
        \<lparr>caches = Map.empty, icalls = 0\<rparr> =
     (replicate 3 (Inr (7::nat)), \<lparr>caches = [5 \<mapsto> [(True, 2, {}) \<mapsto> 7]], icalls = 1\<rparr>)"
proof -
  let ?f = "\<lambda>(a::nat) (kw::unit). (Inr (a + 1) :: error + nat)"
  let ?impl = "\<lambda>(func::bool) (ob::nat) (args::nat) (kw::(string \<times> nat) list). (Inr (ob + args) :: error + nat)"
  let ?h = "\<lparr>caches = Map.empty, icalls = 0\<rparr> :: (nat, bool, nat, string, nat, nat) heap"
  have h1: "cache (memoize :: (nat, nat) memo) 3 = None" by (simp add: memoize_def)
  have h2: "?f 3 () = Inr 4" by simp
  have h3: "(case caches ?h 5 of None \<Rightarrow> None | Some c \<Rightarrow> c (True, 2, set [])) = None" by simp
  have h4: "?impl True 5 2 [] = Inr 7" by simp
  from memoize_computes_once [where st = "memoize" and a = 3 and f = ?f and kw = "()" and v = 4
        and h = ?h and ob = 5 and func = True and args = 2 and ikw = "[]" and impl = ?impl and w = 7
        and n = 2, OF h1 h2 h3 h4]
  show ?thesis by (simp add: memoize_def numeral_3_eq_3)
qed

text \<open>
  Claim C10. The cache is keyed on the positional arguments only. Once a call with the
  positional tuple \<open>a\<close> has returned \<open>v\<close>, every later call with the same tuple returns
  \<open>v\<close> whatever its keyword arguments are, and the wrapped function is not invoked again.
  In particular, after \<open>rate_matrix(n)\<close> has been called for a non-negative \<open>n\<close>, the call
  \<open>rate_matrix(n, sparse_format=fm)\<close> returns the matrix cached by the first call, in CSR
  format, for every format \<open>fm\<close>.
\<close>

theorem memoize_ignores_kwargs:
  assumes "cache st a = None" and "f a kw = Inr v"
    and "0 \<le> n" and "cache rst (n, None) = None"
  shows "memoizer_calls f ((a, kw) # map (\<lambda>k. (a, k)) kws) st =
           (Inr v # map (\<lambda>_. Inr v) kws, st\<lparr>cache := (cache st)(a \<mapsto> v), calls := calls st + 1\<rparr>)
       \<and> (\<exists>M rst'. memoizer rate_matrix_apply (n, None) None rst = (Inr M, rst')
             \<and> rate_matrix n CSR = Inr M \<and> format M = CSR
             \<and> calls rst' = calls rst + 1
             \<and> (\<forall>fm. memoizer rate_matrix_apply (n, None) (Some fm) rst' = (Inr M, rst')))"
proof -
  have A: "memoizer_calls f ((a, kw) # map (\<lambda>k. (a, k)) kws) st =
           (Inr v # map (\<lambda>_. Inr v) kws, st\<lparr>cache := (cache st)(a \<mapsto> v), calls := calls st + 1\<rparr>)"
    using assms(1,2) by (rule memoizer_calls_once)
  let ?M = "\<lparr>format = CSR, shape = (nat n + 1, nat n + 1),
             todense = map (\<lambda>r. map (\<lambda>c. rate_entry_val n r c) [0..<nat n + 1]) [0..<nat n + 1]\<rparr>"
  let ?rst = "rst\<lparr>cache := (cache rst)((n, None) \<mapsto> ?M), calls := calls rst + 1\<rparr>"
  have val: "rate_matrix n CSR = Inr ?M" using assms(3) by (rule rate_matrix_value)
  have app: "rate_matrix_apply (n, None) None = Inr ?M"
    by (simp only: rate_matrix_apply_def prod.case option.case val)
  have first: "memoizer rate_matrix_apply (n, None) None rst = (Inr ?M, ?rst)"
    using assms(4) app by (rule memoizer_miss)
  have "cache ?rst (n, None) = Some ?M" by simp
  then have later: "memoizer rate_matrix_apply (n, None) (Some fm) ?rst = (Inr ?M, ?rst)" for fm
    by (rule memoizer_hit)
  have B: "\<exists>M rst'. memoizer rate_matrix_apply (n, None) None rst = (Inr M, rst')
             \<and> rate_matrix n CSR = Inr M \<and> format M = CSR
             \<and> calls rst' = calls rst + 1
             \<and> (\<forall>fm. memoizer rate_matrix_apply (n, None) (Some fm) rst' = (Inr M, rst'))"
  proof (intro exI [of _ ?M] exI [of _ ?rst] conjI allI)
    show "memoizer rate_matrix_apply (n, None) None rst = (Inr ?M, ?rst)" by (rule first)
    show "rate_matrix n CSR = Inr ?M" by (rule val)
    show "format ?M = CSR" by simp
    show "calls ?rst = calls rst + 1" by simp
    show "memoizer rate_matrix_apply (n, None) (Some fm) ?rst = (Inr ?M, ?rst)" for fm by (rule later)
  qed
  show ?thesis using A B by (rule conjI)
qed

theorem memoize_ignores_kwargs_witness:
  "memoizer_calls (\<lambda>(a::nat) (kw::nat). Inr (a + kw)) [(3, 1), (3, 2), (3, 5)] memoize =
     ([Inr (4::nat), Inr 4, Inr 4], \<lparr>cache = [3 \<mapsto> 4], calls = 1\<rparr>)
   \<and> fst (memoizer rate_matrix_apply (2, None) (Some DIA)
            (snd (memoizer rate_matrix_apply (2, None) None memoize))) =
       Inr \<lparr>format = CSR, shape = (3, 3), todense = [[0, 0, 0], [1 / 2, - 1, 1 / 2], [0, 0, 0]]\<rparr>"
proof -
  let ?f = "\<lambda>(a::nat) (kw::nat). (Inr (a + kw) :: error + nat)"
  have h1: "cache (memoize :: (nat, nat) memo) 3 = None" by (simp add: memoize_def)
  have h2: "?f 3 1 = Inr 4" by simp
  have h3: "(0::int) \<le> 2" by simp
  have h4: "cache (memoize :: (int \<times> sparse_format option, spmatrix) memo) (2, None) = None"
    by (simp add: memoize_def)
  have two: "rate_matrix 2 CSR =
      Inr \<lparr>format = CSR, shape = (3, 3), todense = [[0, 0, 0], [1 / 2, - 1, 1 / 2], [0, 0, 0]]\<rparr>"
    using rate_matrix_value [OF h3, of CSR] rate_matrix_two by simp
  note T = memoize_ignores_kwargs [where st = "memoize" and a = 3 and f = ?f and kw = 1 and v = 4
        and n = 2 and rst = "memoize" and kws = "[2, 5]", OF h1 h2 h3 h4]
  have A: "memoizer_calls ?f [(3, 1), (3, 2), (3, 5)] memoize =
          ([Inr 4, Inr 4, Inr 4], \<lparr>cache = [3 \<mapsto> 4], calls = 1\<rparr>)"
    using T [THEN conjunct1] by (simp add: memoize_def)
  from T [THEN conjunct2] obtain M rst' where
    B: "memoizer rate_matrix_apply (2, None) None memoize = (Inr M, rst')"
       "rate_matrix 2 CSR = Inr M"
       "\<forall>fm. memoizer rate_matrix_apply (2, None) (Some fm) rst' = (Inr M, rst')"
    by blast
  have "memoizer rate_matrix_apply (2, None) (Some DIA) rst' = (Inr M, rst')" using B(3) by blast
  then have "fst (memoizer rate_matrix_apply (2, None) (Some DIA)
            (snd (memoizer rate_matrix_apply (2, None) None memoize))) = Inr M"
    by (simp add: B(1))
  moreover have "Inr M = Inr \<lparr>format = CSR, shape = (3, 3), todense = [[0, 0, 0], [1 / 2, - 1, 1 / 2], [0, 0, 0]]\<rparr>"
    using B(2) two by simp
  ultimately show ?thesis using A by simp
qed

section \<open>Properties of truncate0\<close>

lemma tiny_pos: "0 < tiny"
  unfolding tiny_def by (rule divide_pos_pos) (rule zero_less_one, rule zero_less_power, simp)

lemma fold_max_Max: "l \<noteq> [] \<Longrightarrow> fold max (tl l) (hd l) = Max (set l)"
  by (cases l) (simp_all add: Max.set_eq_fold [symmetric] del: set_simps)

lemma fold_min_Min: "l \<noteq> [] \<Longrightarrow> fold min (tl l) (hd l) = Min (set l)"
  by (cases l) (simp_all add: Min.set_eq_fold [symmetric] del: set_simps)

lemma lanes_wf:
  assumes "wf_array x" and "valid_axis axis"
  shows "\<exists>ls. lanes x axis = Inr ls \<and> ls \<noteq> [] \<and> (\<forall>l \<in> set ls. l \<noteq> [])"
proof -
  have x: "x \<noteq> []" and rows: "\<forall>row \<in> set x. row \<noteq> []"
    using assms(1) unfolding wf_array_def by blast+
  have hd: "hd x \<noteq> []" using x rows by (cases x) auto
  consider "axis = None" | "axis = Some 1 \<or> axis = Some (- 1)" | "axis = Some 0 \<or> axis = Some (- 2)"
    using assms(2) by (auto simp: valid_axis_def)
  then show ?thesis
  proof cases
    case 1
    have "concat x \<noteq> []" using x rows by (cases x) auto
    then show ?thesis using 1 by (simp add: lanes_def)
  next
    case 2
    then show ?thesis using x rows by (auto simp: lanes_def)
  next
    case 3
    have "columns x \<noteq> []" using hd by (simp add: columns_def)
    moreover have "\<forall>l \<in> set (columns x). l \<noteq> []" using x by (auto simp: columns_def)
    ultimately show ?thesis using 3 x by (auto simp: lanes_def)
  qed
qed

lemma reduce_axis_wf:
  assumes "lanes x axis = Inr ls" and "x \<noteq> []" and "\<forall>l \<in> set ls. l \<noteq> []"
  shows "reduce_axis max x axis = Inr (map (\<lambda>l. Max (set l)) ls)"
    and "reduce_axis min x axis = Inr (map (\<lambda>l. Min (set l)) ls)"
  using assms by (auto simp: reduce_axis_def fold_max_Max fold_min_Min)

lemma list_all_zip_map:
  "list_all (\<lambda>(a, b). P a b) (zip (map f xs) (map g xs)) = (\<forall>l \<in> set xs. P (f l) (g l))"
  by (induction xs) auto

lemma truncate0_unfold:
  assumes "lanes x axis = Inr ls" and "x \<noteq> []" and "\<forall>l \<in> set ls. l \<noteq> []"
  shows "truncate0 x axis strict tol =
     (if \<exists>l \<in> set ls. lane_fails tol l then (Inl AssertionError, x)
      else if strict
      then (Inr (zero_below x axis (map (\<lambda>l. tol * max (Max (set l)) tiny) ls)),
            zero_below x axis (map (\<lambda>l. tol * max (Max (set l)) tiny) ls))
      else (Inr (zero_below x axis (map (\<lambda>l. 2 * max (- Min (set l)) 0) ls)),
            zero_below x axis (map (\<lambda>l. 2 * max (- Min (set l)) 0) ls)))"
proof -
  have all: "list_all (\<lambda>(mn, mx). mn \<le> tol * mx)
          (zip (map (\<lambda>v. max (- v) 0) (map (\<lambda>l. Min (set l)) ls))
               (map (\<lambda>v. max v tiny) (map (\<lambda>l. Max (set l)) ls)))
        = (\<not> (\<exists>l \<in> set ls. lane_fails tol l))"
    unfolding map_map comp_def
    by (subst list_all_zip_map) (auto simp: lane_fails_def not_less)
  show ?thesis
    unfolding truncate0_def reduce_axis_wf [OF assms] sum.case Let_def all
    by (simp add: comp_def)
qed

lemma truncate0_failure_keeps:
  "fst (truncate0 x axis strict tol) = Inl e \<Longrightarrow> snd (truncate0 x axis strict tol) = x"
  by (auto simp: truncate0_def Let_def split: sum.splits if_splits)


lemma lanes_elems:
  assumes "wf_array x" and "lanes x axis = Inr ls" and "l \<in> set ls"
  shows "set l \<subseteq> set (concat x)"
proof (cases axis)
  case None
  then have "ls = [concat x]" using assms(2) by (simp add: lanes_def)
  then show ?thesis using assms(3) by simp
next
  case (Some a)
  have len: "\<forall>row \<in> set x. length row = length (hd x)" using assms(1) unfolding wf_array_def by blast
  show ?thesis
  proof (cases "a = 1 \<or> a = - 1")
    case True
    then have "ls = x" using Some assms(2) by (simp add: lanes_def)
    then have "l \<in> set x" using assms(3) by simp
    then show ?thesis by auto
  next
    case False
    then have "ls = columns x" using Some assms(2) by (simp add: lanes_def split: if_splits)
    then have "l \<in> set (columns x)" using assms(3) by simp
    then obtain c where c: "c < length (hd x)" "l = map (\<lambda>row. row ! c) x"
      unfolding columns_def by auto
    show ?thesis
    proof
      fix v assume "v \<in> set l"
      then obtain row where row: "row \<in> set x" "v = row ! c" unfolding c(2) by auto
      then have "c < length row" using len c(1) by simp
      then have "v \<in> set row" using row(2) by simp
      then show "v \<in> set (concat x)" using row(1) by auto
    qed
  qed
qed

lemma lanes_cover:
  assumes "wf_array x" and "valid_axis axis" and "lanes x axis = Inr ls" and "v \<in> set (concat x)"
  shows "\<exists>l \<in> set ls. v \<in> set l"
proof -
  have len: "\<forall>row \<in> set x. length row = length (hd x)" using assms(1) unfolding wf_array_def by blast
  consider "axis = None" | "axis = Some 1 \<or> axis = Some (- 1)" | "axis = Some 0 \<or> axis = Some (- 2)"
    using assms(2) by (auto simp: valid_axis_def)
  then show ?thesis
  proof cases
    case 1
    then show ?thesis using assms(3,4) by (auto simp: lanes_def)
  next
    case 2
    then show ?thesis using assms(3,4) by (auto simp: lanes_def)
  next
    case 3
    then have ls: "ls = columns x" using assms(3) by (auto simp: lanes_def split: if_splits)
    obtain row where row: "row \<in> set x" "v \<in> set row" using assms(4) by auto
    then obtain c where c: "c < length row" "v = row ! c" by (auto simp: in_set_conv_nth)
    have "c < length (hd x)" using c(1) row(1) len by simp
    then have "map (\<lambda>row. row ! c) x \<in> set (columns x)"
      unfolding columns_def set_map by (intro image_eqI [where x = c]) simp_all
    moreover have "v \<in> set (map (\<lambda>row. row ! c) x)" using row(1) c(2) by auto
    ultimately show ?thesis using ls by blast
  qed
qed

lemma lane_index:
  assumes "wf_array x" and "valid_axis axis" and "lanes x axis = Inr ls"
    and "r < length x" and "c < length (x ! r)"
  shows "lane_of axis r c < length ls"
proof -
  have "x ! r \<in> set x" using assms(4) by simp
  then have "length (x ! r) = length (hd x)" using assms(1) unfolding wf_array_def by blast
  then have c: "c < length (hd x)" using assms(5) by simp
  consider "axis = None" | "axis = Some 1 \<or> axis = Some (- 1)" | "axis = Some 0 \<or> axis = Some (- 2)"
    using assms(2) by (auto simp: valid_axis_def)
  then show ?thesis
  proof cases
    case 1
    then show ?thesis using assms(3) by (auto simp: lanes_def lane_of_def)
  next
    case 2
    then show ?thesis using assms(3,4) by (auto simp: lanes_def lane_of_def)
  next
    case 3
    then show ?thesis using assms(3) c by (auto simp: lanes_def lane_of_def columns_def split: if_splits)
  qed
qed

lemma zero_below_id:
  assumes "\<forall>v \<in> set (concat x). 0 \<le> v"
    and "\<forall>r < length x. \<forall>c < length (x ! r). bounds ! lane_of axis r c \<le> 0"
  shows "zero_below x axis bounds = x"
proof (rule nth_equalityI)
  show "length (zero_below x axis bounds) = length x" by (simp add: zero_below_def)
next
  fix r assume "r < length (zero_below x axis bounds)"
  then have r: "r < length x" by (simp add: zero_below_def)
  have row: "zero_below x axis bounds ! r =
      map (\<lambda>(c, v). if v < bounds ! lane_of axis r c then 0 else v) (enumerate 0 (x ! r))"
    using r by (simp add: zero_below_def nth_enumerate_eq)
  show "zero_below x axis bounds ! r = x ! r"
  proof (rule nth_equalityI)
    show "length (zero_below x axis bounds ! r) = length (x ! r)" by (simp add: row)
  next
    fix c assume "c < length (zero_below x axis bounds ! r)"
    then have c: "c < length (x ! r)" by (simp add: row)
    have "x ! r ! c \<in> set (concat x)" using r c by (auto intro!: bexI [of _ "x ! r"])
    then have "0 \<le> x ! r ! c" using assms(1) by blast
    moreover have "bounds ! lane_of axis r c \<le> 0" using assms(2) r c by blast
    ultimately have "\<not> x ! r ! c < bounds ! lane_of axis r c" by simp
    then show "zero_below x axis bounds ! r ! c = x ! r ! c"
      using c by (simp add: row nth_enumerate_eq)
  qed
qed

text \<open>
  Claim C4, as amended. On an array without negative entries (in particular on one whose
  entries are all positive), for every axis and every \<open>tol\<close>, the non-strict
  \<open>truncate0\<close> changes nothing: it returns its argument when \<open>tol\<close> is not negative,
  and raises \<open>AssertionError\<close>, the argument untouched, when \<open>tol\<close> is negative. So the
  sum of the entries never decreases. (With \<open>strict\<close> set, small positive entries are
  zeroed; see the counterexample.)
\<close>

theorem truncate0_nonneg_identity:
  assumes "wf_array x" and "valid_axis axis" and "\<forall>v \<in> set (concat x). 0 \<le> v"
  shows "truncate0 x axis False tol = (if 0 \<le> tol then (Inr x, x) else (Inl AssertionError, x))"
proof -
  obtain ls where ls: "lanes x axis = Inr ls" "ls \<noteq> []" "\<forall>l \<in> set ls. l \<noteq> []"
    using lanes_wf [OF assms(1,2)] by blast
  have x: "x \<noteq> []" using assms(1) unfolding wf_array_def by blast
  have min0: "max (- Min (set l)) 0 = 0" if "l \<in> set ls" for l
  proof -
    have "l \<noteq> []" using that ls(3) by blast
    then have "Min (set l) \<in> set l" by (intro Min_in) simp_all
    then have "Min (set l) \<in> set (concat x)" using lanes_elems [OF assms(1) ls(1) that] by blast
    then have "0 \<le> Min (set l)" using assms(3) by blast
    then show ?thesis by simp
  qed
  have fails: "lane_fails tol l \<longleftrightarrow> tol < 0" if "l \<in> set ls" for l
  proof -
    have pos: "0 < max (Max (set l)) tiny" using tiny_pos by (simp add: less_max_iff_disj)
    have "tol * max (Max (set l)) tiny < 0 \<longleftrightarrow> tol < 0"
    proof (cases "tol < 0")
      case True
      then show ?thesis using pos by (simp add: mult_neg_pos)
    next
      case False
      then have "0 \<le> tol * max (Max (set l)) tiny" using pos by (intro mult_nonneg_nonneg) simp_all
      then show ?thesis using False by (simp add: not_less)
    qed
    then show ?thesis unfolding lane_fails_def min0 [OF that] .
  qed
  have ex: "(\<exists>l \<in> set ls. lane_fails tol l) \<longleftrightarrow> tol < 0"
  proof -
    obtain l where "l \<in> set ls" using ls(2) by (cases ls) auto
    then show ?thesis using fails by blast
  qed
  have id: "zero_below x axis (map (\<lambda>l. 2 * max (- Min (set l)) 0) ls) = x"
  proof (rule zero_below_id [OF assms(3)], intro allI impI)
    fix r c assume "r < length x" and "c < length (x ! r)"
    then have i: "lane_of axis r c < length ls" by (rule lane_index [OF assms(1,2) ls(1)])
    then have "ls ! lane_of axis r c \<in> set ls" by simp
    then show "map (\<lambda>l. 2 * max (- Min (set l)) 0) ls ! lane_of axis r c \<le> 0"
      using i by (simp add: min0)
  qed
  show ?thesis
    unfolding truncate0_unfold [OF ls(1) x ls(3)] ex id by (simp add: not_less)
qed


theorem truncate0_nonneg_identity_witness:
  "wf_array [[1, 2], [3, 4]] \<and> valid_axis (Some 0)
   \<and> truncate0 [[1, 2], [3, 4]] (Some 0) False (1 / 10 ^ 13) = (Inr [[1, 2], [3, 4]], [[1, 2], [3, 4]])"
proof -
  have h1: "wf_array [[1, 2], [3, 4]]" by (simp add: wf_array_def)
  have h2: "valid_axis (Some 0)" by (simp add: valid_axis_def)
  have h3: "\<forall>v \<in> set (concat [[1, 2], [3, 4 :: real]]). 0 \<le> v" by simp
  show ?thesis using truncate0_nonneg_identity [OF h1 h2 h3, of "1 / 10 ^ 13"] h1 h2 by simp
qed

text \<open>
  The claim C4 as stated fails with \<open>strict\<close> set: both entries are positive, the second
  lies below \<open>tol\<close> times the maximum and is zeroed, and the sum decreases.
\<close>

theorem truncate0_strict_counterexample:
  "truncate0 [[1, 1 / 10 ^ 14]] None True (1 / 10 ^ 13) = (Inr [[1, 0]], [[1, 0]])
   \<and> sum_list (concat [[1, 0 :: real]]) < sum_list (concat [[1, 1 / 10 ^ 14]])"
  by (simp add: truncate0_def reduce_axis_def lanes_def zero_below_def lane_of_def tiny_def Let_def)

lemma tiny_lt_one: "tiny < 1"
  by (simp add: tiny_def)

text \<open>
  Claim C3, as amended. On a two-dimensional array with a valid axis, \<open>truncate0\<close> raises
  \<open>AssertionError\<close> if and only if in some lane along the axis (the whole array when the
  axis is \<open>None\<close>) the negative part of the minimum exceeds \<open>tol\<close> times the larger of
  the lane's maximum and \<open>1e-300\<close>. Whenever it raises, the array is left unmodified. An
  array that contains \<open>-1/2\<close> and has maximum \<open>1\<close> makes it raise with \<open>tol = 1e-13\<close>.
\<close>

theorem truncate0_assertion:
  assumes "wf_array x" and "valid_axis axis"
  shows "(\<exists>ls. lanes x axis = Inr ls \<and>
            ((fst (truncate0 x axis strict tol) = Inl AssertionError) \<longleftrightarrow>
             (\<exists>l \<in> set ls. tol * max (Max (set l)) tiny < max (- Min (set l)) 0)))
       \<and> (\<forall>e. fst (truncate0 x axis strict tol) = Inl e \<longrightarrow> snd (truncate0 x axis strict tol) = x)
       \<and> (- 1 / 2 \<in> set (concat x) \<and> Max (set (concat x)) = 1 \<longrightarrow>
            truncate0 x axis strict (1 / 10 ^ 13) = (Inl AssertionError, x))"
proof -
  obtain ls where ls: "lanes x axis = Inr ls" "ls \<noteq> []" "\<forall>l \<in> set ls. l \<noteq> []"
    using lanes_wf [OF assms] by blast
  have x: "x \<noteq> []" using assms(1) unfolding wf_array_def by blast
  note unf = truncate0_unfold [OF ls(1) x ls(3)]
  have iff: "(fst (truncate0 x axis strict tol) = Inl AssertionError) \<longleftrightarrow>
             (\<exists>l \<in> set ls. tol * max (Max (set l)) tiny < max (- Min (set l)) 0)"
    unfolding unf [of strict tol] lane_fails_def by simp
  have A: "\<exists>ls. lanes x axis = Inr ls \<and>
            ((fst (truncate0 x axis strict tol) = Inl AssertionError) \<longleftrightarrow>
             (\<exists>l \<in> set ls. tol * max (Max (set l)) tiny < max (- Min (set l)) 0))"
    using ls(1) iff by blast
  have B: "\<forall>e. fst (truncate0 x axis strict tol) = Inl e \<longrightarrow> snd (truncate0 x axis strict tol) = x"
    using truncate0_failure_keeps by blast
  have C: "truncate0 x axis strict (1 / 10 ^ 13) = (Inl AssertionError, x)"
    if half: "- 1 / 2 \<in> set (concat x)" and mx: "Max (set (concat x)) = 1"
  proof -
    obtain l where l: "l \<in> set ls" "- 1 / 2 \<in> set l"
      using lanes_cover [OF assms ls(1) half] by blast
    have ne: "set l \<noteq> {}" using l(2) by auto
    have "Min (set l) \<le> - 1 / 2" using l(2) by (intro Min_le) simp_all
    then have lo: "1 / 2 \<le> max (- Min (set l)) 0" by simp
    have "Max (set l) \<le> Max (set (concat x))"
      using lanes_elems [OF assms(1) ls(1) l(1)] ne by (intro Max_mono) simp_all
    then have "max (Max (set l)) tiny \<le> 1" using mx tiny_lt_one by simp
    then have "1 / 10 ^ 13 * max (Max (set l)) tiny \<le> 1 / 10 ^ 13 * 1"
      by (intro mult_left_mono) simp_all
    then have "1 / 10 ^ 13 * max (Max (set l)) tiny < 1 / 2" by simp
    then have "lane_fails (1 / 10 ^ 13) l" unfolding lane_fails_def using lo by linarith
    then have "\<exists>l \<in> set ls. lane_fails (1 / 10 ^ 13) l" using l(1) by blast
    then show ?thesis unfolding unf [of strict "1 / 10 ^ 13"] by simp
  qed
  show ?thesis using A B C by blast
qed

theorem truncate0_assertion_witness:
  "wf_array [[1, - 1 / 2], [1 / 4, 1 / 8]] \<and> valid_axis (Some 1)
   \<and> truncate0 [[1, - 1 / 2], [1 / 4, 1 / 8]] (Some 1) False (1 / 10 ^ 13) =
       (Inl AssertionError, [[1, - 1 / 2], [1 / 4, 1 / 8]])"
proof -
  let ?x = "[[1, - 1 / 2], [1 / 4, 1 / 8 :: real]]"
  have h1: "wf_array ?x" by (simp add: wf_array_def)
  have h2: "valid_axis (Some 1)" by (simp add: valid_axis_def)
  have h3: "- 1 / 2 \<in> set (concat ?x) \<and> Max (set (concat ?x)) = 1" by simp
  from truncate0_assertion [OF h1 h2, of False "1 / 10 ^ 13"]
  have "- 1 / 2 \<in> set (concat ?x) \<and> Max (set (concat ?x)) = 1 \<longrightarrow>
            truncate0 ?x (Some 1) False (1 / 10 ^ 13) = (Inl AssertionError, ?x)"
    by blast
  then have "truncate0 ?x (Some 1) False (1 / 10 ^ 13) = (Inl AssertionError, ?x)"
    using h3 by blast
  then show ?thesis using h1 h2 by blast
qed

text \<open>
  The claim C3 as stated, with \<open>tol\<close> times the maximum entry as the bound, fails where the
  maximum is below \<open>1e-300\<close>: here the maximum is \<open>0\<close>, the magnitude \<open>1e-314\<close> of the
  negative entry exceeds \<open>tol * 0\<close>, and the call does not raise; it returns the array
  with the negative entry zeroed.
\<close>

theorem truncate0_floor_counterexample:
  "truncate0 [[0, - 1 / 10 ^ 314]] None False (1 / 10 ^ 13) = (Inr [[0, 0]], [[0, 0]])
   \<and> 1 / 10 ^ 13 * Max (set [0, - 1 / 10 ^ 314 :: real]) < max (- Min (set [0, - 1 / 10 ^ 314])) 0"
  by (simp add: truncate0_def reduce_axis_def lanes_def zero_below_def lane_of_def tiny_def Let_def)

section \<open>Properties of check\_probs\_matrix\<close>

lemma truncate0_result_alias:
  "truncate0 x axis strict tol = (Inr y, x') \<Longrightarrow> y = x'"
  by (auto simp: truncate0_def Let_def split: sum.splits if_splits)

lemma allclose_row: "allclose a 1 \<Longrightarrow> s \<in> set a \<Longrightarrow> 0 < s"
proof -
  assume a: "allclose a 1" and s: "s \<in> set a"
  then have "abs (s - 1) \<le> 1 / 10 ^ 8 + 1 / 10 ^ 5 * abs (1::real)"
    by (simp add: allclose_def list_all_iff)
  moreover have "1 / 10 ^ 8 + 1 / 10 ^ 5 * abs (1::real) < 1" by simp
  ultimately have "abs (s - 1) < 1" by linarith
  then show "0 < s" by linarith
qed

lemma zip_map_self: "zip y (map f y) = map (\<lambda>r. (r, f r)) y"
  by (induction y) auto

lemma normalised_rows:
  assumes "allclose (map sum_list y) 1"
    and "row \<in> set (map (\<lambda>(row, s). map (\<lambda>v. v * (1 / s)) row) (zip y (map sum_list y)))"
  shows "sum_list row = (1::real)"
proof -
  from assms(2) obtain r where r: "r \<in> set y" "row = map (\<lambda>v. v * (1 / sum_list r)) r"
    by (auto simp: zip_map_self)
  have "0 < sum_list r" using assms(1) r(1) by (intro allclose_row [of "map sum_list y"]) simp_all
  then have nz: "sum_list r \<noteq> 0" by simp
  have "sum_list (map (\<lambda>v. v * c) r) = sum_list r * c" for c :: real
    by (induction r) (simp_all add: algebra_simps)
  then have "sum_list row = sum_list r * (1 / sum_list r)"
    unfolding r(2) by blast
  then show ?thesis using nz by simp
qed

text \<open>
  Claim C2, as amended. \<open>check_probs_matrix\<close> first applies \<open>truncate0\<close> (with the default
  parameters) to its argument, and an error of \<open>truncate0\<close> is the error of the call.
  Then it asserts that the row sums of the truncated array are close to \<open>1\<close>, and only
  then normalises the rows. Whenever it returns, the argument has been truncated in place,
  the row sums of the truncated array were close to \<open>1\<close>, and every row of the result sums
  to exactly \<open>1\<close>. It raises on \<open>[[0.9, 0.05]]\<close>.
\<close>

theorem check_probs_matrix_truncates_first:
  "(\<forall>e x'. truncate0 x None False (1 / 10 ^ 13) = (Inl e, x') \<longrightarrow> check_probs_matrix x = (Inl e, x'))
   \<and> (\<forall>y. truncate0 x None False (1 / 10 ^ 13) = (Inr y, y) \<longrightarrow> \<not> allclose (map sum_list y) 1 \<longrightarrow>
          check_probs_matrix x = (Inl AssertionError, y))
   \<and> (\<forall>z x'. check_probs_matrix x = (Inr z, x') \<longrightarrow>
          truncate0 x None False (1 / 10 ^ 13) = (Inr x', x') \<and> allclose (map sum_list x') 1
          \<and> length z = length x' \<and> (\<forall>row \<in> set z. sum_list row = 1))
   \<and> check_probs_matrix [[9 / 10, 5 / 100]] = (Inl AssertionError, [[9 / 10, 5 / 100]])"
proof (intro conjI allI impI)
  fix e x' assume "truncate0 x None False (1 / 10 ^ 13) = (Inl e, x')"
  then show "check_probs_matrix x = (Inl e, x')" by (simp add: check_probs_matrix_def)
next
  fix y assume "truncate0 x None False (1 / 10 ^ 13) = (Inr y, y)" and "\<not> allclose (map sum_list y) 1"
  then show "check_probs_matrix x = (Inl AssertionError, y)" by (simp add: check_probs_matrix_def)
next
  fix z x' assume c: "check_probs_matrix x = (Inr z, x')"
  obtain r x1 where t: "truncate0 x None False (1 / 10 ^ 13) = (r, x1)"
    by (cases "truncate0 x None False (1 / 10 ^ 13)")
  from c t obtain y where y: "r = Inr y"
    by (cases r) (simp_all add: check_probs_matrix_def)
  have yx: "y = x1" using t y by (intro truncate0_result_alias [of x None False "1 / 10 ^ 13"]) simp
  have close: "allclose (map sum_list y) 1"
    using c t y by (auto simp: check_probs_matrix_def Let_def split: if_splits)
  have z: "z = map (\<lambda>(row, s). map (\<lambda>v. v * (1 / s)) row) (zip y (map sum_list y))" and x': "x' = x1"
    using c t y close by (simp_all add: check_probs_matrix_def Let_def)
  show "truncate0 x None False (1 / 10 ^ 13) = (Inr x', x')" using t y yx x' by simp
  show "allclose (map sum_list x') 1" using close yx x' by simp
  show "length z = length x'" using z yx x' by simp
  show "\<forall>row \<in> set z. sum_list row = 1"
    using normalised_rows [OF close] z by blast
next
  show "check_probs_matrix [[9 / 10, 5 / 100]] = (Inl AssertionError, [[9 / 10, 5 / 100]])"
    by (simp add: check_probs_matrix_def truncate0_def reduce_axis_def lanes_def zero_below_def
        lane_of_def tiny_def allclose_def Let_def)
qed

theorem check_probs_matrix_truncates_first_witness:
  "check_probs_matrix [[1 / 2, 1 / 2], [999999999 / 10 ^ 9, 1 / 10 ^ 10]] =
     (Inr [[1 / 2, 1 / 2], [9999999990 / 9999999991, 1 / 9999999991]],
      [[1 / 2, 1 / 2], [999999999 / 10 ^ 9, 1 / 10 ^ 10]])
   \<and> sum_list [9999999990 / 9999999991, 1 / 9999999991 :: real] = 1"
proof -
  let ?x = "[[1 / 2, 1 / 2], [999999999 / 10 ^ 9, 1 / 10 ^ 10 :: real]]"
  let ?z = "[[1 / 2, 1 / 2], [9999999990 / 9999999991, 1 / 9999999991 :: real]]"
  have c: "check_probs_matrix ?x = (Inr ?z, ?x)"
    by (simp add: check_probs_matrix_def truncate0_def reduce_axis_def lanes_def zero_below_def
        lane_of_def tiny_def allclose_def Let_def)
  from check_probs_matrix_truncates_first [of ?x] c
  have "\<forall>row \<in> set ?z. sum_list row = 1" by blast
  then have "sum_list [9999999990 / 9999999991, 1 / 9999999991 :: real] = 1" by simp
  then show ?thesis using c by blast
qed

text \<open>
  The claim C2 as stated, with the row sums asserted before the truncation, fails: the row
  sum of this input is within the tolerance of \<open>1\<close>, so the order of the specification
  would accept it and return the normalised \<open>[[1, 0]]\<close>; the code truncates first, which
  zeroes the negative entry and moves the row sum out of the tolerance, and raises.
\<close>

theorem check_probs_matrix_order_counterexample:
  "allclose (map sum_list [[100001001000005 / 10 ^ 14, - 1 / 10 ^ 13]]) 1
   \<and> check_probs_matrix [[100001001000005 / 10 ^ 14, - 1 / 10 ^ 13]] =
       (Inl AssertionError, [[100001001000005 / 10 ^ 14, 0]])
   \<and> check_probs_matrix_spec [[100001001000005 / 10 ^ 14, - 1 / 10 ^ 13]] =
       (Inr [[1, 0]], [[100001001000005 / 10 ^ 14, 0]])"
  by (simp add: check_probs_matrix_def check_probs_matrix_spec_def truncate0_def reduce_axis_def
      lanes_def zero_below_def lane_of_def tiny_def allclose_def Let_def)

section \<open>Properties of expm1d and transformed\_expi\<close>

text \<open>
  Claim C6. \<open>expm1d\<close> returns exactly \<open>1\<close> at \<open>0\<close>; it returns plus infinity at plus
  infinity, by its explicit branch: the division it would otherwise perform there yields
  NaN; at every other real \<open>x\<close> it returns \<open>expm1(x) / x\<close>, that is \<open>(exp x - 1) / x\<close>.
\<close>

theorem expm1d_branches:
  "expm1d (Finite 0) = Finite 1
   \<and> expm1d PosInf = PosInf
   \<and> fdiv (np_expm1 PosInf) PosInf = NaN
   \<and> (\<forall>x. x \<noteq> 0 \<longrightarrow> expm1d (Finite x) = fdiv (np_expm1 (Finite x)) (Finite x)
                    \<and> expm1d (Finite x) = Finite ((exp x - 1) / x))"
  by (simp add: expm1d_def)

theorem expm1d_branches_witness:
  "(1::real) \<noteq> 0 \<and> expm1d (Finite 1) = Finite ((exp 1 - 1) / 1)"
proof -
  have h: "(1::real) \<noteq> 0" by simp
  from expm1d_branches have "(1::real) \<noteq> 0 \<longrightarrow> expm1d (Finite 1) = Finite ((exp 1 - 1) / 1)" by blast
  then show ?thesis using h by blast
qed

lemma map2_map_self: "map2 f (map g x) x = map (\<lambda>v. f (g v) v) x"
  by (induction x) auto

lemma map2_map_map: "map2 f (map g x) (map h x) = map (\<lambda>v. f (g v) (h v)) x"
  by (induction x) auto

lemma series_loop_invariant:
  assumes "1 \<le> m" and "m \<le> n"
  shows "series_loop x [m..<n] (map (\<lambda>v. expi_coeff v (m - 1)) x, map (\<lambda>v. \<Sum>k<m. expi_coeff v k) x) =
           (map (\<lambda>v. expi_coeff v (n - 1)) x, map (\<lambda>v. \<Sum>k<n. expi_coeff v k) x)"
  using assms
proof (induction "n - m" arbitrary: m)
  case 0
  then have "m = n" by simp
  then show ?case by simp
next
  case (Suc d)
  then have mn: "m < n" by simp
  obtain j where j: "m = Suc j" using Suc.prems(1) by (cases m) auto
  have up: "[m..<n] = m # [Suc m..<n]" using mn by (rule upt_conv_Cons)
  have c': "map2 (\<lambda>c v. - c * v * real m) (map (\<lambda>v. expi_coeff v (m - 1)) x) x
              = map (\<lambda>v. expi_coeff v (Suc m - 1)) x"
    unfolding map2_map_self j by simp
  have r': "map2 (+) (map (\<lambda>v. \<Sum>k<m. expi_coeff v k) x) (map (\<lambda>v. expi_coeff v (Suc m - 1)) x)
              = map (\<lambda>v. \<Sum>k<Suc m. expi_coeff v k) x"
    unfolding map2_map_map by simp
  have IH: "series_loop x [Suc m..<n]
              (map (\<lambda>v. expi_coeff v (Suc m - 1)) x, map (\<lambda>v. \<Sum>k<Suc m. expi_coeff v k) x) =
           (map (\<lambda>v. expi_coeff v (n - 1)) x, map (\<lambda>v. \<Sum>k<n. expi_coeff v k) x)"
    using Suc.hyps(2) mn by (intro Suc.hyps(1)) simp_all
  show ?case
    unfolding up series_loop.simps Let_def c' r' by (rule IH)
qed

lemma transformed_expi_series_eq:
  "transformed_expi_series x = map (\<lambda>v. \<Sum>k<11. expi_coeff v k) x"
proof -
  have "series_loop x [1..<11] (map (\<lambda>v. expi_coeff v (1 - 1)) x, map (\<lambda>v. \<Sum>k<1. expi_coeff v k) x) =
           (map (\<lambda>v. expi_coeff v (11 - 1)) x, map (\<lambda>v. \<Sum>k<11. expi_coeff v k) x)"
    by (rule series_loop_invariant) simp_all
  then show ?thesis by (simp add: transformed_expi_series_def)
qed

lemma expi_coeff_closed: "expi_coeff v k = (- 1) ^ k * fact k * v ^ k"
  by (induction k) (simp_all add: algebra_simps)

lemma put_select:
  "length ret = length x \<Longrightarrow>
   put_mask ret (map P x) (map f (select_mask x (map P x))) =
     map (\<lambda>(r, v). if P v then f v else r) (zip ret x)"
proof (induction x arbitrary: ret)
  case Nil
  then show ?case by simp
next
  case (Cons a x)
  then obtain r rs where ret: "ret = r # rs" "length rs = length x" by (cases ret) auto
  have sel: "select_mask (a # x) (map P (a # x)) =
      (if P a then a # select_mask x (map P x) else select_mask x (map P x))"
    by (simp add: select_mask_def)
  show ?case unfolding ret(1) sel using Cons.IH [OF ret(2)] by simp
qed

text \<open>
  Claim C7. \<open>transformed_expi\<close> works element by element. Where \<open>|x| < 1/45\<close> the result
  is the sum of the series coefficients \<open>c\<^sub>0, ..., c\<^sub>1\<^sub>0\<close> with \<open>c\<^sub>0 = 1\<close> and
  \<open>c\<^sub>k = - c\<^sub>k\<^sub>-\<^sub>1 * x * k\<close> (ten coefficients generated after \<open>c\<^sub>0\<close>; \<open>c\<^sub>k\<close> is
  \<open>(-1)^k * k! * x^k\<close>). Where \<open>|x| \<ge> 1/45\<close> the result is the closed form
  \<open>- expi(-1/x) * exp(1/x) / x\<close> in the library's exponential integral.
\<close>

theorem transformed_expi_split:
  "transformed_expi expi x =
     map (\<lambda>v. if abs v < 1 / 45 then (\<Sum>k = 0..10. expi_coeff v k)
               else - expi (- 1 / v) * exp (1 / v) / v) x
   \<and> expi_coeff v k = (- 1) ^ k * fact k * v ^ k"
proof -
  let ?P = "\<lambda>v::real. abs v < 1 / 45"
  let ?S = "\<lambda>v. \<Sum>k<11. expi_coeff v k"
  let ?N = "\<lambda>v. - expi (- 1 / v) * exp (1 / v) / v"
  have ser: "map (\<lambda>a. a < 1 / 45) (map abs x) = map ?P x" by simp
  have nser: "map Not (map ?P x) = map (\<lambda>v. \<not> ?P v) x" by simp
  have s1: "put_mask (map (\<lambda>_. 0) x) (map ?P x) (transformed_expi_series (select_mask x (map ?P x)))
          = map (\<lambda>v. if ?P v then ?S v else 0) x"
    unfolding transformed_expi_series_eq
    by (subst put_select) (simp_all add: zip_map1 zip_same_conv_map)
  have s2: "put_mask (map (\<lambda>v. if ?P v then ?S v else 0) x) (map (\<lambda>v. \<not> ?P v) x)
              (transformed_expi_naive expi (select_mask x (map (\<lambda>v. \<not> ?P v) x)))
          = map (\<lambda>v. if ?P v then ?S v else ?N v) x"
    unfolding transformed_expi_naive_def
    by (subst put_select) (simp_all add: zip_map1 zip_same_conv_map)
  have atMost: "{..<11::nat} = {0..10}" by auto
  have "transformed_expi expi x = map (\<lambda>v. if ?P v then ?S v else ?N v) x"
    unfolding transformed_expi_def Let_def ser nser s1 s2 by (rule refl)
  then show ?thesis unfolding atMost using expi_coeff_closed by simp
qed

end
